theory Spec2Isabelle
  imports Main "HOL-Library.Sublist" "HOL-Library.Word"
begin

section \<open>JavaScript string primitives used by the registry module\<close>

text \<open>
  Strings are lists of characters. The module compares characters with \<^verbatim>\<open>/\<close> and strings
  with ASCII literals only, so nothing depends on how wide a character is.
\<close>

text \<open>
  \<^verbatim>\<open>s.split(sep)\<close> for a one-character separator: the segments between the
  separators, in order. The result is never empty (\<^verbatim>\<open>''.split('/')\<close> is \<^verbatim>\<open>['']\<close>), and a
  trailing separator yields a trailing empty segment.
\<close>

fun split_str :: "char \<Rightarrow> string \<Rightarrow> string list" where
  "split_str sep [] = [[]]"
| "split_str sep (c # cs) =
     (if c = sep then [] # split_str sep cs
      else (case split_str sep cs of
              [] \<Rightarrow> [[c]]
            | seg # segs \<Rightarrow> (c # seg) # segs))"

text \<open>
  \<^verbatim>\<open>s.replace(pat, rep)\<close> with a string pattern: only the first (leftmost) occurrence
  of \<open>pat\<close> is replaced; a string without an occurrence is returned unchanged. The module
  only ever passes the replacement \<^verbatim>\<open>''\<close>, so the \<^verbatim>\<open>$\<close>-patterns of replacement
  strings play no role.
\<close>

fun replace_str :: "string \<Rightarrow> string \<Rightarrow> string \<Rightarrow> string" where
  "replace_str pat rep [] = (if pat = [] then rep else [])"
| "replace_str pat rep (c # cs) =
     (if prefix pat (c # cs) then rep @ drop (length pat) (c # cs)
      else c # replace_str pat rep cs)"

text \<open>
  Array destructuring \<^verbatim>\<open>[a, b, c, d] = xs\<close> reads the elements by position; a
  position past the end of the array gives \<^verbatim>\<open>undefined\<close>, here \<open>None\<close>.
\<close>

definition nth_opt :: "'a list \<Rightarrow> nat \<Rightarrow> 'a option" where
  "nth_opt xs n = (if n < length xs then Some (xs ! n) else None)"

text \<open>
  A value interpolated into a template literal or used as a property key is converted to
  a string; \<^verbatim>\<open>undefined\<close> becomes the text \<^verbatim>\<open>undefined\<close>.
\<close>

definition to_str :: "string option \<Rightarrow> string" where
  "to_str v = (case v of None \<Rightarrow> ''undefined'' | Some s \<Rightarrow> s)"

text \<open>Truthiness of a \<^verbatim>\<open>string | undefined\<close>: only \<^verbatim>\<open>undefined\<close> and \<^verbatim>\<open>''\<close> are falsy.\<close>

definition truthy_str :: "string option \<Rightarrow> bool" where
  "truthy_str v = (case v of None \<Rightarrow> False | Some s \<Rightarrow> s \<noteq> [])"

section \<open>The path parser\<close>

text \<open>
  \<^verbatim>\<open>AssetParts\<close>. The source casts the object literal to the interface, so at run time
  every field but \<open>path\<close> can hold \<^verbatim>\<open>undefined\<close>; the fields are options to keep that.
  The field \<^verbatim>\<open>file\<close> is named \<open>file_part\<close> here.
\<close>

record AssetParts =
  pkgkey :: "string option"
  service :: "string option"
  type :: "string option"
  file_part :: "string option"
  dataset :: "string option"
  path :: string

text \<open>The first four positions of the array of segments, as the destructuring reads them.\<close>

definition first4 :: "string list \<Rightarrow> string option \<times> string option \<times> string option \<times> string option" where
  "first4 segs = (nth_opt segs 0, nth_opt segs 1, nth_opt segs 2, nth_opt segs 3)"

definition pathParts :: "string \<Rightarrow> AssetParts" where
  "pathParts p =
     (case first4 (split_str CHR ''/'' p) of (pkgkey0, service0, type0, file0) \<Rightarrow>
      (case (if service0 = Some ''dataset''
             then (type0,
                   first4 (split_str CHR ''/''
                     (replace_str (''dataset/'' @ to_str type0 @ ''/'') [] p)))
             else (None, (pkgkey0, service0, type0, file0)))
       of (dataset1, (pkgkey1, service1, type1, file1)) \<Rightarrow>
       (case (if file1 = None then (Some [], Some ''fields'', type1)
              else (service1, type1, file1))
        of (service2, type2, file2) \<Rightarrow>
        \<lparr>pkgkey = pkgkey1, service = service2, type = type2, file_part = file2,
         dataset = dataset1, path = p\<rparr>)))"

section \<open>Buffers, errors and the content cache\<close>

text \<open>A \<^verbatim>\<open>Buffer\<close> is a sequence of bytes. As an object it is truthy whatever its length.\<close>

type_synonym buffer = "8 word list"

text \<open>
  A thrown value or a rejected promise: \<^verbatim>\<open>new Error(message)\<close>, or the \<^verbatim>\<open>TypeError\<close>
  raised by the language itself.
\<close>

datatype error = Error string | TypeError string

text \<open>
  The content cache maps a key to a buffer. The module \<^verbatim>\<open>./cache\<close> that holds it is
  absent; a key that was never set and a key set to \<^verbatim>\<open>undefined\<close> both read as \<open>None\<close>.
\<close>

type_synonym cache = "string \<Rightarrow> buffer option"

text \<open>
  Modelled from the spec: \<^verbatim>\<open>cacheGet\<close> of the absent module \<^verbatim>\<open>./cache\<close>. Section 4.2:
  \<^verbatim>\<open>get(key) -> buffer|absent\<close> on an in-memory mapping.
\<close>

definition cacheGet :: "cache \<Rightarrow> string \<Rightarrow> buffer option" where
  "cacheGet c key = c key"

text \<open>
  Modelled from the spec: \<^verbatim>\<open>cacheSet\<close> of the absent module \<^verbatim>\<open>./cache\<close>. Section 4.2:
  \<^verbatim>\<open>set(key, buffer) -> void\<close>; the last set wins on a key collision; no eviction.
\<close>

definition cacheSet :: "cache \<Rightarrow> string \<Rightarrow> buffer option \<Rightarrow> cache" where
  "cacheSet c key v = c(key := v)"

section \<open>The registry and the archive extractor as parameters\<close>

record RegistryPackage =
  name :: string
  version :: string
  download :: string

definition pkgToPkgKey :: "RegistryPackage \<Rightarrow> string" where
  "pkgToPkgKey pkg = name pkg @ ''-'' @ version pkg"

text \<open>\<^verbatim>\<open>ArchiveEntry\<close>: one member of an archive; a directory entry carries no buffer.\<close>

record ArchiveEntry =
  path :: string
  buffer :: "buffer option"

text \<open>
  What the module reads from outside itself. The modules \<^verbatim>\<open>./requests\<close>,
  \<^verbatim>\<open>./streams\<close> and \<^verbatim>\<open>./extract\<close> and the configuration service are absent, so they
  are parameters of every operation:
  \<^item> \<open>registryUrl\<close> is \<^verbatim>\<open>configService.getConfig()?.epm.registryUrl\<close>;
  \<^item> \<open>fetchJson t url\<close> is the outcome of \<^verbatim>\<open>fetchUrl(url).then(JSON.parse)\<close> at time \<open>t\<close>;
  \<^item> \<open>fetchBuffer t url\<close> is the outcome of \<^verbatim>\<open>getResponseStream(url).then(streamToBuffer)\<close>
    at time \<open>t\<close>: a rejection, or a resolved value that is a buffer or \<^verbatim>\<open>undefined\<close> (the
    two cases the source tells apart);
  \<^item> \<open>untar buf\<close> is the walk of the decompressed archive: the entries it yields, in order,
    and the decode error that ended it, if any.
  The time is the number of archive fetches started before; it lets the network answer
  differently from one request to the next.
\<close>

record world =
  registryUrl :: "string option"
  fetchJson :: "nat \<Rightarrow> string \<Rightarrow> error + RegistryPackage"
  fetchBuffer :: "nat \<Rightarrow> string \<Rightarrow> error + buffer option"
  untar :: "buffer \<Rightarrow> ArchiveEntry list \<times> error option"

text \<open>
  The state of the module: the cache, and a log with one line for each call of
  \<^verbatim>\<open>fetchArchiveBuffer\<close>, the key asked for and its outcome. The log is what a mock
  transport that counts fetches would record; the code never reads it.
\<close>

record registry_state =
  cache :: cache
  fetch_log :: "(string \<times> (error + buffer option)) list"

definition initial_state :: registry_state where
  "initial_state = \<lparr>cache = (\<lambda>key. None), fetch_log = []\<rparr>"

section \<open>The archive fetcher\<close>

text \<open>
  The operations take the outside world and the state of the module and return their
  result with the new state; a rejected promise or a thrown error is the \<open>Inl\<close> result.
  The parameter \<^verbatim>\<open>pkgkey\<close> of the source is written \<open>pkgKey\<close>, the shorter name being the
  field of \<^verbatim>\<open>AssetParts\<close>.
\<close>

definition fetchInfo :: "world \<Rightarrow> nat \<Rightarrow> string \<Rightarrow> error + RegistryPackage" where
  "fetchInfo w t key = fetchJson w t (to_str (registryUrl w) @ ''/package/'' @ key)"

definition fetchArchiveBuffer ::
  "world \<Rightarrow> string \<Rightarrow> registry_state \<Rightarrow> (error + buffer option) \<times> registry_state" where
  "fetchArchiveBuffer w key s =
     (let t = length (fetch_log s);
          r = (case fetchInfo w t key of
                 Inl e \<Rightarrow> Inl e
               | Inr info \<Rightarrow> fetchBuffer w t (to_str (registryUrl w) @ download info))
      in (r, s\<lparr>fetch_log := fetch_log s @ [(key, r)]\<rparr>))"

definition getOrFetchArchiveBuffer ::
  "world \<Rightarrow> string \<Rightarrow> registry_state \<Rightarrow> (error + buffer) \<times> registry_state" where
  "getOrFetchArchiveBuffer w pkgKey s =
     (let key = pkgKey @ ''.tar.gz'' in
      case cacheGet (cache s) key of
        Some b \<Rightarrow> (Inr b, s)
      | None \<Rightarrow>
          (case fetchArchiveBuffer w pkgKey s of
             (Inl e, s1) \<Rightarrow> (Inl e, s1)
           | (Inr fetched, s1) \<Rightarrow>
               (let s2 = s1\<lparr>cache := cacheSet (cache s1) key fetched\<rparr> in
                case fetched of
                  Some b \<Rightarrow> (Inr b, s2)
                | None \<Rightarrow> (Inl (Error (''no archive buffer for '' @ key)), s2))))"

text \<open>
  The entry as the filter sees it: the filter is asked before the content of the entry is
  materialized into a buffer.
\<close>

definition header :: "ArchiveEntry \<Rightarrow> ArchiveEntry" where
  "header entry = entry\<lparr>buffer := None\<rparr>"

text \<open>
  Modelled from the spec: \<^verbatim>\<open>untarBuffer\<close> of the absent module \<^verbatim>\<open>./extract\<close>.
  Section 4.3: walk the archive entry by entry; for each entry apply the filter; if it
  returns false, skip the entry without materializing its content; if it returns true,
  materialize the content and invoke \<^verbatim>\<open>onEntry\<close>; a malformed archive fails with a decode
  error, which is propagated. The entries walked before the failure have been handed to
  \<^verbatim>\<open>onEntry\<close> by then.
\<close>

definition untarBuffer ::
  "world \<Rightarrow> buffer \<Rightarrow> (ArchiveEntry \<Rightarrow> bool) \<Rightarrow> (ArchiveEntry \<Rightarrow> 'a \<Rightarrow> 'a) \<Rightarrow> 'a
     \<Rightarrow> (error + unit) \<times> 'a" where
  "untarBuffer w archiveBuffer flt onEntry acc =
     (case untar w archiveBuffer of (entries, failure) \<Rightarrow>
        ((case failure of None \<Rightarrow> Inr () | Some e \<Rightarrow> Inl e),
         foldl (\<lambda>a entry. if flt (header entry) then onEntry entry a else a) acc entries))"

text \<open>The function \<^verbatim>\<open>extract\<close> of the source, named \<open>extract_archive\<close> here.\<close>

definition extract_archive ::
  "world \<Rightarrow> string \<Rightarrow> (ArchiveEntry \<Rightarrow> bool)
     \<Rightarrow> (ArchiveEntry \<Rightarrow> 'a \<times> registry_state \<Rightarrow> 'a \<times> registry_state)
     \<Rightarrow> 'a \<times> registry_state \<Rightarrow> (error + unit) \<times> 'a \<times> registry_state" where
  "extract_archive w pkgKey flt onEntry acc =
     (case getOrFetchArchiveBuffer w pkgKey (snd acc) of
        (Inl e, s1) \<Rightarrow> (Inl e, (fst acc, s1))
      | (Inr archiveBuffer, s1) \<Rightarrow> untarBuffer w archiveBuffer flt onEntry (fst acc, s1))"

text \<open>
  The callback of \<^verbatim>\<open>getArchiveInfo\<close>. It closes over the local array \<^verbatim>\<open>paths\<close> and
  writes to the cache, so it transforms the pair of both.
\<close>

definition onEntry :: "ArchiveEntry \<Rightarrow> string list \<times> registry_state \<Rightarrow> string list \<times> registry_state" where
  "onEntry entry acc =
     (if \<not> truthy_str (file_part (pathParts (path entry))) then acc
      else (case buffer entry of
              None \<Rightarrow> acc
            | Some b \<Rightarrow>
                (fst acc @ [path entry],
                 (snd acc)\<lparr>cache := cacheSet (cache (snd acc)) (path entry) (Some b)\<rparr>)))"

definition getArchiveInfo ::
  "world \<Rightarrow> string \<Rightarrow> (ArchiveEntry \<Rightarrow> bool) \<Rightarrow> registry_state
     \<Rightarrow> (error + string list) \<times> registry_state" where
  "getArchiveInfo w pkgKey flt s =
     (case extract_archive w pkgKey flt onEntry ([], s) of
        (Inl e, (paths, s1)) \<Rightarrow> (Inl e, s1)
      | (Inr u, (paths, s1)) \<Rightarrow> (Inr paths, s1))"

text \<open>The default filter of \<^verbatim>\<open>getArchiveInfo\<close> accepts every entry.\<close>

definition accept_all :: "ArchiveEntry \<Rightarrow> bool" where
  "accept_all entry = True"

definition getAsset :: "string \<Rightarrow> registry_state \<Rightarrow> error + buffer" where
  "getAsset key s =
     (case cacheGet (cache s) key of
        None \<Rightarrow> Inl (Error (''Cannot find asset '' @ key))
      | Some b \<Rightarrow> Inr b)"

section \<open>Calls that overlap\<close>








section \<open>The asset grouper\<close>

text \<open>
  The grouper builds plain objects (\<^verbatim>\<open>{}\<close>) and indexes them with strings taken from the
  paths. A plain object is modelled by its own properties, a finite map, together with
  what every plain object inherits: the members of \<^verbatim>\<open>Object.prototype\<close>, listed below
  as the language defines them. Reading a property finds an own value, an inherited one
  (a built-in function or object, truthy, and never an array), or nothing.
\<close>

definition objectPrototypeKeys :: "string list" where
  "objectPrototypeKeys =
     [''constructor'', ''__defineGetter__'', ''__defineSetter__'', ''hasOwnProperty'',
      ''__lookupGetter__'', ''__lookupSetter__'', ''isPrototypeOf'', ''propertyIsEnumerable'',
      ''toString'', ''valueOf'', ''__proto__'', ''toLocaleString'']"

datatype 'v property = Own 'v | Inherited | Missing

definition get_property :: "(string \<rightharpoonup> 'v) \<Rightarrow> string \<Rightarrow> 'v property" where
  "get_property obj key =
     (case obj key of
        Some v \<Rightarrow> Own v
      | None \<Rightarrow> if key \<in> set objectPrototypeKeys then Inherited else Missing)"

text \<open>
  \<^verbatim>\<open>key in obj\<close> for a plain object with the own property names \<open>ownKeys\<close>. The
  enumeration \<^verbatim>\<open>KibanaAssetType\<close> is declared in a module that is absent; its own
  property names are the parameter \<open>assetTypes\<close> of the grouper.
\<close>

definition has_property :: "string list \<Rightarrow> string \<Rightarrow> bool" where
  "has_property ownKeys key = (key \<in> set ownKeys \<or> key \<in> set objectPrototypeKeys)"

text \<open>
  How a call ends: it returns, it throws, or it goes on to read and write a built-in
  object (when a service name is a member of \<^verbatim>\<open>Object.prototype\<close>, \<^verbatim>\<open>map[parts.service]\<close>
  is that member). The model does not follow the built-in objects and stops there.
\<close>

datatype 'a outcome = Returns 'a | Throws error | TouchesBuiltin

type_synonym by_type = "string \<rightharpoonup> AssetParts list"

type_synonym by_service = "string \<rightharpoonup> by_type"

record AssetsGroupedByServiceByType =
  kibana :: "by_type option"

text \<open>\<^verbatim>\<open>path.replace(/^\/package\//, '')\<close>: the prefix is removed when the path starts with it.\<close>

definition strip_package :: "string \<Rightarrow> string" where
  "strip_package p = (if prefix ''/package/'' p then drop (length ''/package/'') p else p)"

text \<open>
  The last two statements of the reducer's body, for the object \<open>byType\<close> found or created
  at \<^verbatim>\<open>map[parts.service]\<close>: create the array if the lookup is falsy, then push. An
  inherited member is truthy and has no \<^verbatim>\<open>push\<close>.
\<close>

definition push_parts ::
  "by_service \<Rightarrow> string \<Rightarrow> by_type \<Rightarrow> string \<Rightarrow> AssetParts \<Rightarrow> by_service outcome" where
  "push_parts m s byType t parts =
     (case get_property byType t of
        Inherited \<Rightarrow> Throws (TypeError ''map[parts.service][parts.type].push is not a function'')
      | Missing \<Rightarrow> Returns (m(s \<mapsto> byType(t \<mapsto> [parts])))
      | Own ps \<Rightarrow> Returns (m(s \<mapsto> byType(t \<mapsto> ps @ [parts]))))"

text \<open>The reducer's body for one path.\<close>

definition group_path :: "string list \<Rightarrow> by_service \<Rightarrow> string \<Rightarrow> by_service outcome" where
  "group_path assetTypes m p =
     (let parts = pathParts (strip_package p);
          s = to_str (service parts);
          t = to_str (type parts)
      in if has_property assetTypes t
         then (case get_property m s of
                 Inherited \<Rightarrow> TouchesBuiltin
               | Missing \<Rightarrow> push_parts m s Map.empty t parts
               | Own byType \<Rightarrow> push_parts m s byType t parts)
         else Returns m)"

text \<open>\<^verbatim>\<open>paths.reduce(..., map)\<close>, left to right.\<close>

fun group_paths :: "string list \<Rightarrow> by_service \<Rightarrow> string list \<Rightarrow> by_service outcome" where
  "group_paths assetTypes m [] = Returns m"
| "group_paths assetTypes m (p # ps) =
     (case group_path assetTypes m p of
        Returns m' \<Rightarrow> group_paths assetTypes m' ps
      | Throws e \<Rightarrow> Throws e
      | TouchesBuiltin \<Rightarrow> TouchesBuiltin)"

text \<open>
  The result keeps \<^verbatim>\<open>assets.kibana\<close> only (\<^verbatim>\<open>kibana\<close> is not a member of
  \<^verbatim>\<open>Object.prototype\<close>, so the lookup is the own property or \<^verbatim>\<open>undefined\<close>).
\<close>

definition groupPathsByService ::
  "string list \<Rightarrow> string list \<Rightarrow> AssetsGroupedByServiceByType outcome" where
  "groupPathsByService assetTypes paths =
     (case group_paths assetTypes Map.empty paths of
        Returns assets \<Rightarrow> Returns \<lparr>kibana = assets ''kibana''\<rparr>
      | Throws e \<Rightarrow> Throws e
      | TouchesBuiltin \<Rightarrow> TouchesBuiltin)"

section \<open>Notions used to state the properties\<close>

text \<open>The entries of a walk that \<^verbatim>\<open>getArchiveInfo\<close> keeps, in the order of the walk.\<close>

definition cached_entries :: "(ArchiveEntry \<Rightarrow> bool) \<Rightarrow> ArchiveEntry list \<Rightarrow> ArchiveEntry list" where
  "cached_entries flt entries =
     filter (\<lambda>e. flt (header e) \<and> truthy_str (file_part (pathParts (path e))) \<and>
                 buffer e \<noteq> None) entries"

text \<open>The cache after \<^verbatim>\<open>cacheSet(path, buffer)\<close> for each entry of a list, in order.\<close>

definition cache_entries :: "cache \<Rightarrow> ArchiveEntry list \<Rightarrow> cache" where
  "cache_entries c es = foldl (\<lambda>c e. cacheSet c (path e) (buffer e)) c es"





definition parse_path :: "string \<Rightarrow> AssetParts" where
  "parse_path p = pathParts (strip_package p)"

definition service_key :: "AssetParts \<Rightarrow> string" where
  "service_key a = to_str (service a)"

definition type_key :: "AssetParts \<Rightarrow> string" where
  "type_key a = to_str (type a)"

text \<open>The list found in a grouping under a service and a type, empty when there is none.\<close>

definition assets_at :: "by_service \<Rightarrow> string \<Rightarrow> string \<Rightarrow> AssetParts list" where
  "assets_at m s t =
     (case m s of None \<Rightarrow> [] | Some g \<Rightarrow> (case g t of None \<Rightarrow> [] | Some ps \<Rightarrow> ps))"

definition kibana_assets :: "AssetsGroupedByServiceByType \<Rightarrow> string \<Rightarrow> AssetParts list" where
  "kibana_assets r t =
     (case kibana r of None \<Rightarrow> [] | Some g \<Rightarrow> (case g t of None \<Rightarrow> [] | Some ps \<Rightarrow> ps))"

text \<open>A path whose parsed service and type are not names of members of \<^verbatim>\<open>Object.prototype\<close>.\<close>

definition plain_keys :: "string \<Rightarrow> bool" where
  "plain_keys p = (service_key (parse_path p) \<notin> set objectPrototypeKeys \<and>
                   type_key (parse_path p) \<notin> set objectPrototypeKeys)"

section \<open>The scenario of the specification\<close>

text \<open>
  The registry answers \<^verbatim>\<open>fetchInfo("system-1.2.0")\<close> with a package whose download path
  is \<^verbatim>\<open>/epr/system/system-1.2.0.tar.gz\<close>; the archive holds one file and one directory.
\<close>

definition scenario_package :: RegistryPackage where
  "scenario_package =
     \<lparr>name = ''system'', version = ''1.2.0'', download = ''/epr/system/system-1.2.0.tar.gz''\<rparr>"

definition scenario_archive :: buffer where
  "scenario_archive = [0x1F, 0x8B, 0x08, 0x00]"

definition sample_json :: buffer where
  "sample_json = [0x7B, 0x7D]"

definition scenario_entries :: "ArchiveEntry list" where
  "scenario_entries =
     [\<lparr>path = ''system-1.2.0/kibana/dashboard/sample.json'', buffer = Some sample_json\<rparr>,
      \<lparr>path = ''system-1.2.0/kibana/dashboard/'', buffer = None\<rparr>]"

definition scenario_world :: world where
  "scenario_world =
     \<lparr>registryUrl = Some ''http://registry'',
      fetchJson = (\<lambda>t url. if url = ''http://registry/package/system-1.2.0''
                            then Inr scenario_package else Inl (Error ''not found'')),
      fetchBuffer = (\<lambda>t url. if url = ''http://registry/epr/system/system-1.2.0.tar.gz''
                              then Inr (Some scenario_archive) else Inl (Error ''not found'')),
      untar = (\<lambda>b. if b = scenario_archive then (scenario_entries, None)
                     else ([], Some (Error ''decode error'')))\<rparr>"

text \<open>The same registry serving an archive of zero bytes, in which the walk finds nothing.\<close>

definition empty_archive_world :: world where
  "empty_archive_world =
     scenario_world\<lparr>fetchBuffer := (\<lambda>t url. Inr (Some [])), untar := (\<lambda>b. ([], None))\<rparr>"

text \<open>The same registry with a download that resolves without a buffer.\<close>

definition no_buffer_world :: world where
  "no_buffer_world = scenario_world\<lparr>fetchBuffer := (\<lambda>t url. Inr None)\<rparr>"


section \<open>Auxiliary facts\<close>

subsection \<open>Splitting and replacing\<close>

lemma split_str_not_Nil: "split_str sep s \<noteq> []"
  by (induction s) (auto split: list.splits)

lemma split_str_no_sep: "sep \<notin> set s \<Longrightarrow> split_str sep s = [s]"
  by (induction s) auto

lemma split_str_append:
  "sep \<notin> set a \<Longrightarrow> split_str sep (a @ sep # rest) = a # split_str sep rest"
  by (induction a) (auto split: list.splits)

lemma split_str_segments: "seg \<in> set (split_str sep s) \<Longrightarrow> sep \<notin> set seg"
  by (induction s arbitrary: seg) (auto split: list.splits if_splits)

lemma length_split_str: "length (split_str sep s) = Suc (count_list s sep)"
  by (induction s) (auto split: list.splits simp: split_str_not_Nil)

lemma prefix_count_le: "prefix pat s \<Longrightarrow> count_list pat x \<le> count_list s x"
  by (auto simp: prefix_def)

lemma replace_str_absent:
  "count_list s x < count_list pat x \<Longrightarrow> replace_str pat rep s = s"
proof (induction s)
  case Nil
  then show ?case by auto
next
  case (Cons c cs)
  have "\<not> prefix pat (c # cs)"
    using Cons.prems prefix_count_le[of pat "c # cs" x] by auto
  moreover have "count_list cs x < count_list pat x"
    using Cons.prems by (auto split: if_splits)
  ultimately show ?case using Cons.IH by simp
qed

lemma nth_opt_short: "length xs \<le> n \<Longrightarrow> nth_opt xs n = None"
  by (simp add: nth_opt_def)



lemma takeWhile_upto_sep:
  "sep \<notin> set a \<Longrightarrow> takeWhile (\<lambda>c. c \<noteq> sep) (a @ sep # r) = a"
  by (induction a) auto

lemma replace_str_prefix:
  "prefix pat s \<Longrightarrow> replace_str pat rep s = rep @ drop (length pat) s"
  by (cases s) auto

lemma marker_overlap:
  assumes a: "sep \<notin> set a" and n: "sep \<notin> set n" and w: "sep \<notin> set w"
    and pre: "prefix (w @ sep # n @ [sep]) (a @ sep # w @ sep # n @ sep # rest)"
  shows "drop (length (w @ sep # n @ [sep])) (a @ sep # w @ sep # n @ sep # rest) = a @ sep # rest"
proof -
  let ?pat = "w @ sep # n @ [sep]"
  let ?s = "a @ sep # w @ sep # n @ sep # rest"
  from pre obtain zs where zs: "?s = ?pat @ zs" by (auto simp: prefix_def)
  have "takeWhile (\<lambda>c. c \<noteq> sep) ?s = a" using a by (rule takeWhile_upto_sep)
  moreover have "takeWhile (\<lambda>c. c \<noteq> sep) (?pat @ zs) = w"
    using takeWhile_upto_sep[OF w, of "n @ sep # zs"] by simp
  ultimately have aw: "a = w" using zs by simp
  from zs aw have eq2: "w @ sep # n @ sep # rest = n @ sep # zs" by simp
  have "takeWhile (\<lambda>c. c \<noteq> sep) (w @ sep # n @ sep # rest) = w"
    using w by (rule takeWhile_upto_sep)
  moreover have "takeWhile (\<lambda>c. c \<noteq> sep) (n @ sep # zs) = n"
    using n by (rule takeWhile_upto_sep)
  ultimately have wn: "w = n" using eq2 by simp
  from eq2 wn have "zs = a @ sep # rest" using aw by simp
  moreover have "drop (length ?pat) ?s = zs"
    unfolding zs by simp
  ultimately show ?thesis by simp
qed

lemma replace_str_marker:
  assumes a: "sep \<notin> set a" and n: "sep \<notin> set n" and w: "sep \<notin> set w"
  shows "replace_str (w @ sep # n @ [sep]) [] (a @ sep # w @ sep # n @ sep # rest)
           = a @ sep # rest"
  using a
proof (induction a)
  case Nil
  show ?case
  proof (cases "prefix (w @ sep # n @ [sep]) ([] @ sep # w @ sep # n @ sep # rest)")
    case True
    then show ?thesis
      using marker_overlap[OF _ n w True] replace_str_prefix[OF True, of "[]"] by simp
  next
    case False
    have "prefix (w @ sep # n @ [sep]) (w @ sep # n @ sep # rest)"
      by (simp add: prefix_def)
    then have "replace_str (w @ sep # n @ [sep]) [] (w @ sep # n @ sep # rest) = rest"
      using replace_str_prefix[of "w @ sep # n @ [sep]" "w @ sep # n @ sep # rest" "[]"] by simp
    then show ?thesis using False by simp
  qed
next
  case (Cons c a')
  show ?case
  proof (cases "prefix (w @ sep # n @ [sep]) ((c # a') @ sep # w @ sep # n @ sep # rest)")
    case True
    then show ?thesis
      using marker_overlap[OF Cons.prems n w True] replace_str_prefix[OF True, of "[]"] by simp
  next
    case False
    then show ?thesis using Cons by simp
  qed
qed

lemma replace_str_dataset:
  assumes a: "CHR ''/'' \<notin> set a" and n: "CHR ''/'' \<notin> set n"
  shows "replace_str (''dataset/'' @ n @ ''/'') [] (a @ ''/dataset/'' @ n @ ''/'' @ rest)
           = a @ ''/'' @ rest"
  using replace_str_marker[OF a n, of "''dataset''" rest] by simp

lemma dataset_branch_unfold:
  assumes "split_str CHR ''/'' p = a # ''dataset'' # n # rest"
    and "replace_str (''dataset/'' @ n @ ''/'') [] p = q"
    and "split_str CHR ''/'' q = segs"
  shows "pathParts p =
    \<lparr>pkgkey = nth_opt segs 0,
     service = (if nth_opt segs 3 = None then Some [] else nth_opt segs 1),
     type = (if nth_opt segs 3 = None then Some ''fields'' else nth_opt segs 2),
     file_part = (if nth_opt segs 3 = None then nth_opt segs 2 else nth_opt segs 3),
     dataset = Some n, path = p\<rparr>"
  using assms(2,3) unfolding pathParts_def assms(1)
  by (simp add: first4_def nth_opt_def to_str_def)

subsection \<open>The walk over the archive\<close>

lemma walk_onEntry:
  "foldl (\<lambda>a entry. if flt (header entry) then onEntry entry a else a) (paths, s) entries =
     (paths @ map path (cached_entries flt entries),
      s\<lparr>cache := cache_entries (cache s) (cached_entries flt entries)\<rparr>)"
proof (induction entries arbitrary: paths s)
  case Nil
  then show ?case by (simp add: cached_entries_def cache_entries_def)
next
  case (Cons e es)
  show ?case
  proof (cases "flt (header e) \<and> truthy_str (file_part (pathParts (path e))) \<and> buffer e \<noteq> None")
    case True
    then obtain b where b: "buffer e = Some b" by auto
    have step: "(if flt (header e) then onEntry e (paths, s) else (paths, s)) =
        (paths @ [path e], s\<lparr>cache := cacheSet (cache s) (path e) (Some b)\<rparr>)"
      using True b by (simp add: onEntry_def)
    have ce: "cached_entries flt (e # es) = e # cached_entries flt es"
      using True by (simp add: cached_entries_def)
    show ?thesis
      by (simp only: foldl_Cons step Cons.IH ce) (simp add: cache_entries_def b)
  next
    case False
    have step: "(if flt (header e) then onEntry e (paths, s) else (paths, s)) = (paths, s)"
      using False by (auto simp: onEntry_def split: option.splits)
    have ce: "cached_entries flt (e # es) = cached_entries flt es"
      using False by (auto simp: cached_entries_def)
    show ?thesis
      by (simp only: foldl_Cons step Cons.IH ce)
  qed
qed

lemma getArchiveInfo_extracted:
  assumes "getOrFetchArchiveBuffer w k s = (Inr buf, s1)"
    and "untar w buf = (entries, failure)"
  shows "getArchiveInfo w k flt s =
     ((case failure of None \<Rightarrow> Inr (map path (cached_entries flt entries)) | Some e \<Rightarrow> Inl e),
      s1\<lparr>cache := cache_entries (cache s1) (cached_entries flt entries)\<rparr>)"
  using assms
  by (simp add: getArchiveInfo_def extract_archive_def untarBuffer_def walk_onEntry
      split: option.splits)

lemma getArchiveInfo_no_buffer:
  assumes "getOrFetchArchiveBuffer w k s = (Inl e, s1)"
  shows "getArchiveInfo w k flt s = (Inl e, s1)"
  using assms by (simp add: getArchiveInfo_def extract_archive_def)

lemma cache_entries_other:
  "key \<notin> path ` set es \<Longrightarrow> cache_entries c es key = c key"
  by (induction es arbitrary: c) (auto simp: cache_entries_def cacheSet_def)

lemma cache_entries_last:
  "[e \<leftarrow> es. path e = key] \<noteq> [] \<Longrightarrow>
   cache_entries c es key = buffer (last [e \<leftarrow> es. path e = key])"
proof (induction es arbitrary: c rule: rev_induct)
  case Nil
  then show ?case by simp
next
  case (snoc e es)
  show ?case
  proof (cases "path e = key")
    case True
    then show ?thesis by (simp add: cache_entries_def cacheSet_def)
  next
    case False
    then show ?thesis using snoc by (simp add: cache_entries_def cacheSet_def)
  qed
qed

subsection \<open>Cache lookups and the fetch log\<close>

lemma fetchArchiveBuffer_state:
  "snd (fetchArchiveBuffer w k s) = s\<lparr>fetch_log := fetch_log s @ [(k, fst (fetchArchiveBuffer w k s))]\<rparr>"
  by (simp add: fetchArchiveBuffer_def Let_def)


lemma getOrFetch_miss_error:
  assumes "cacheGet (cache s) (k @ ''.tar.gz'') = None" "fst (fetchArchiveBuffer w k s) = Inl e"
  shows "getOrFetchArchiveBuffer w k s = (Inl e, s\<lparr>fetch_log := fetch_log s @ [(k, Inl e)]\<rparr>)"
  using assms fetchArchiveBuffer_state[of w k s]
  by (cases "fetchArchiveBuffer w k s") (simp add: getOrFetchArchiveBuffer_def)

lemma getOrFetch_miss_undefined:
  assumes "cacheGet (cache s) (k @ ''.tar.gz'') = None" "fst (fetchArchiveBuffer w k s) = Inr None"
  shows "getOrFetchArchiveBuffer w k s =
    (Inl (Error (''no archive buffer for '' @ k @ ''.tar.gz'')), s\<lparr>fetch_log := fetch_log s @ [(k, Inr None)]\<rparr>)"
proof -
  have "(cache s)(k @ ''.tar.gz'' := None) = cache s"
    using assms(1) by (auto simp: cacheGet_def)
  then show ?thesis
    using assms fetchArchiveBuffer_state[of w k s]
    by (cases "fetchArchiveBuffer w k s") (simp add: getOrFetchArchiveBuffer_def cacheSet_def)
qed

lemma getOrFetch_miss_buffer:
  assumes "cacheGet (cache s) (k @ ''.tar.gz'') = None" "fst (fetchArchiveBuffer w k s) = Inr (Some b)"
  shows "getOrFetchArchiveBuffer w k s =
    (Inr b, s\<lparr>cache := cacheSet (cache s) (k @ ''.tar.gz'') (Some b),
               fetch_log := fetch_log s @ [(k, Inr (Some b))]\<rparr>)"
  using assms fetchArchiveBuffer_state[of w k s]
  by (cases "fetchArchiveBuffer w k s") (simp add: getOrFetchArchiveBuffer_def)


















subsection \<open>One step and all steps of the grouper\<close>

lemma group_path_plain:
  assumes "plain_keys p"
  shows "\<exists>m'. group_path K m p = Returns m' \<and>
      (\<forall>s t. assets_at m' s t = assets_at m s t @
         (if service_key (parse_path p) = s \<and> type_key (parse_path p) = t \<and> t \<in> set K
          then [parse_path p] else [])) \<and>
      (\<forall>s. (m' s = None) = (m s = None \<and> \<not> (service_key (parse_path p) = s \<and> type_key (parse_path p) \<in> set K)))"
  using assms
  by (auto simp: group_path_def push_parts_def get_property_def has_property_def plain_keys_def
      parse_path_def service_key_def type_key_def assets_at_def Let_def split: option.splits)

lemma group_paths_plain:
  assumes "\<forall>p\<in>set paths. plain_keys p"
  shows "\<exists>m'. group_paths K m paths = Returns m' \<and>
      (\<forall>s t. assets_at m' s t = assets_at m s t @
         [a \<leftarrow> map parse_path paths. service_key a = s \<and> type_key a = t \<and> t \<in> set K]) \<and>
      (\<forall>s. (m' s = None) = (m s = None \<and> [a \<leftarrow> map parse_path paths. service_key a = s \<and> type_key a \<in> set K] = []))"
  using assms
proof (induction paths arbitrary: m)
  case Nil
  then show ?case by simp
next
  case (Cons p ps)
  from Cons.prems have pp: "plain_keys p" and rest: "\<forall>p\<in>set ps. plain_keys p" by auto
  from group_path_plain[OF pp, of K m] obtain m1 where
    m1: "group_path K m p = Returns m1"
    and a1: "\<And>s t. assets_at m1 s t = assets_at m s t @
         (if service_key (parse_path p) = s \<and> type_key (parse_path p) = t \<and> t \<in> set K
          then [parse_path p] else [])"
    and n1: "\<And>s. (m1 s = None) = (m s = None \<and> \<not> (service_key (parse_path p) = s \<and> type_key (parse_path p) \<in> set K))"
    by blast
  from Cons.IH[OF rest, of m1] obtain m2 where
    m2: "group_paths K m1 ps = Returns m2"
    and a2: "\<And>s t. assets_at m2 s t = assets_at m1 s t @
         [a \<leftarrow> map parse_path ps. service_key a = s \<and> type_key a = t \<and> t \<in> set K]"
    and n2: "\<And>s. (m2 s = None) = (m1 s = None \<and> [a \<leftarrow> map parse_path ps. service_key a = s \<and> type_key a \<in> set K] = [])"
    by blast
  have "group_paths K m (p # ps) = Returns m2" using m1 m2 by simp
  moreover have "\<forall>s t. assets_at m2 s t = assets_at m s t @
         [a \<leftarrow> map parse_path (p # ps). service_key a = s \<and> type_key a = t \<and> t \<in> set K]"
    by (simp add: a2 a1)
  moreover have "\<forall>s. (m2 s = None) = (m s = None \<and> [a \<leftarrow> map parse_path (p # ps). service_key a = s \<and> type_key a \<in> set K] = [])"
    by (auto simp: n2 n1)
  ultimately show ?case by blast
qed

subsection \<open>The path parser\<close>

lemma split_str_join4:
  assumes "CHR ''/'' \<notin> set a" "CHR ''/'' \<notin> set b" "CHR ''/'' \<notin> set c" "CHR ''/'' \<notin> set d"
  shows "split_str CHR ''/'' (a @ ''/'' @ b @ ''/'' @ c @ ''/'' @ d) = [a, b, c, d]"
  using assms split_str_append[of "CHR ''/''"] split_str_no_sep[of "CHR ''/''" d] by simp

lemma split_str_join3:
  assumes "CHR ''/'' \<notin> set a" "CHR ''/'' \<notin> set b" "CHR ''/'' \<notin> set c"
  shows "split_str CHR ''/'' (a @ ''/'' @ b @ ''/'' @ c) = [a, b, c]"
  using assms split_str_append[of "CHR ''/''"] split_str_no_sep[of "CHR ''/''" c] by simp

lemma split_str_join2:
  assumes "CHR ''/'' \<notin> set a" "CHR ''/'' \<notin> set b"
  shows "split_str CHR ''/'' (a @ ''/'' @ b) = [a, b]"
  using assms split_str_append[of "CHR ''/''"] split_str_no_sep[of "CHR ''/''" b] by simp

lemma pathParts_type_defined: "type (pathParts p) \<noteq> None"
  by (auto simp: pathParts_def first4_def nth_opt_def split: prod.splits if_splits)

lemma pathParts_service_defined: "service (pathParts p) \<noteq> None"
  by (auto simp: pathParts_def first4_def nth_opt_def split: prod.splits if_splits)

text \<open>
  C6. A path of exactly four segments whose second segment is not \<^verbatim>\<open>dataset\<close> is parsed
  into its segments: pkgkey, service, type and file are the segments 1 to 4, the dataset
  is undefined and the path field is the input.
\<close>

theorem pathParts_four_segments:
  assumes "split_str CHR ''/'' p = [a, b, c, d]" and "b \<noteq> ''dataset''"
  shows "pathParts p =
    \<lparr>pkgkey = Some a, service = Some b, type = Some c, file_part = Some d,
     dataset = None, path = p\<rparr>"
  using assms by (simp add: pathParts_def first4_def nth_opt_def)

theorem pathParts_four_segments_witness:
  "split_str CHR ''/'' ''system-1.2.0/kibana/dashboard/sample.json''
     = [''system-1.2.0'', ''kibana'', ''dashboard'', ''sample.json''] \<and>
   ''kibana'' \<noteq> ''dataset'' \<and>
   pathParts ''system-1.2.0/kibana/dashboard/sample.json'' =
     \<lparr>pkgkey = Some ''system-1.2.0'', service = Some ''kibana'', type = Some ''dashboard'',
      file_part = Some ''sample.json'', dataset = None,
      path = ''system-1.2.0/kibana/dashboard/sample.json''\<rparr>"
proof -
  have seg: "split_str CHR ''/'' ''system-1.2.0/kibana/dashboard/sample.json''
     = [''system-1.2.0'', ''kibana'', ''dashboard'', ''sample.json'']" by simp
  have ne: "''kibana'' \<noteq> ''dataset''" by simp
  from pathParts_four_segments[OF seg ne] seg ne show ?thesis by blast
qed

text \<open>
  C7. The path \<^verbatim>\<open>pkg-1.0/dataset/ds1/logs/log/file.yml\<close> is parsed into pkgkey
  \<^verbatim>\<open>pkg-1.0\<close>, service \<^verbatim>\<open>logs\<close>, type \<^verbatim>\<open>log\<close>, file \<^verbatim>\<open>file.yml\<close> and dataset \<^verbatim>\<open>ds1\<close>. In
  general, when the second segment is the dataset marker, the third segment is the dataset
  name, the portion \<^verbatim>\<open>dataset/<name>/\<close> is removed and the remainder is split again into
  pkgkey, service, type and file.
\<close>

theorem pathParts_dataset_scoped:
  "pathParts ''pkg-1.0/dataset/ds1/logs/log/file.yml'' =
     \<lparr>pkgkey = Some ''pkg-1.0'', service = Some ''logs'', type = Some ''log'',
      file_part = Some ''file.yml'', dataset = Some ''ds1'',
      path = ''pkg-1.0/dataset/ds1/logs/log/file.yml''\<rparr> \<and>
   (CHR ''/'' \<notin> set a \<and> CHR ''/'' \<notin> set n \<and> CHR ''/'' \<notin> set s \<and> CHR ''/'' \<notin> set t \<and>
    CHR ''/'' \<notin> set f \<longrightarrow>
    pathParts (a @ ''/dataset/'' @ n @ ''/'' @ s @ ''/'' @ t @ ''/'' @ f) =
      \<lparr>pkgkey = Some a, service = Some s, type = Some t, file_part = Some f,
       dataset = Some n, path = a @ ''/dataset/'' @ n @ ''/'' @ s @ ''/'' @ t @ ''/'' @ f\<rparr>)"
proof (intro conjI impI)
  show "pathParts ''pkg-1.0/dataset/ds1/logs/log/file.yml'' =
     \<lparr>pkgkey = Some ''pkg-1.0'', service = Some ''logs'', type = Some ''log'',
      file_part = Some ''file.yml'', dataset = Some ''ds1'',
      path = ''pkg-1.0/dataset/ds1/logs/log/file.yml''\<rparr>"
    by (simp add: pathParts_def first4_def to_str_def nth_opt_def)
next
  assume free: "CHR ''/'' \<notin> set a \<and> CHR ''/'' \<notin> set n \<and> CHR ''/'' \<notin> set s \<and>
    CHR ''/'' \<notin> set t \<and> CHR ''/'' \<notin> set f"
  let ?p = "a @ ''/dataset/'' @ n @ ''/'' @ s @ ''/'' @ t @ ''/'' @ f"
  have sp: "split_str CHR ''/'' ?p = a # ''dataset'' # n # [s, t, f]"
    using free split_str_append[of "CHR ''/''"] split_str_no_sep[of "CHR ''/''" f] by simp
  have rp: "replace_str (''dataset/'' @ n @ ''/'') [] ?p = a @ ''/'' @ s @ ''/'' @ t @ ''/'' @ f"
    using replace_str_dataset[of a n "s @ ''/'' @ t @ ''/'' @ f"] free by simp
  have sp2: "split_str CHR ''/'' (a @ ''/'' @ s @ ''/'' @ t @ ''/'' @ f) = [a, s, t, f]"
    using free by (intro split_str_join4) simp_all
  show "pathParts ?p =
      \<lparr>pkgkey = Some a, service = Some s, type = Some t, file_part = Some f,
       dataset = Some n, path = ?p\<rparr>"
    unfolding dataset_branch_unfold[OF sp rp sp2] by (simp add: nth_opt_def)
qed

theorem pathParts_dataset_scoped_witness:
  "CHR ''/'' \<notin> set ''system-1.2.0'' \<and> CHR ''/'' \<notin> set ''cpu'' \<and>
   CHR ''/'' \<notin> set ''elasticsearch'' \<and> CHR ''/'' \<notin> set ''ingest-pipeline'' \<and>
   CHR ''/'' \<notin> set ''default.json'' \<and>
   pathParts ''system-1.2.0/dataset/cpu/elasticsearch/ingest-pipeline/default.json'' =
     \<lparr>pkgkey = Some ''system-1.2.0'', service = Some ''elasticsearch'',
      type = Some ''ingest-pipeline'', file_part = Some ''default.json'',
      dataset = Some ''cpu'',
      path = ''system-1.2.0/dataset/cpu/elasticsearch/ingest-pipeline/default.json''\<rparr>"
  using pathParts_dataset_scoped[of "''system-1.2.0''" "''cpu''" "''elasticsearch''"
      "''ingest-pipeline''" "''default.json''"]
  by simp

text \<open>
  C8. A path of three segments whose second segment is not \<^verbatim>\<open>dataset\<close> gets the fields
  shift: file is the third segment, type is the literal \<^verbatim>\<open>fields\<close>, service is the empty
  string and the dataset is undefined.
\<close>

theorem pathParts_fields_shift:
  assumes "split_str CHR ''/'' p = [a, b, c]" and "b \<noteq> ''dataset''"
  shows "pathParts p =
    \<lparr>pkgkey = Some a, service = Some [], type = Some ''fields'', file_part = Some c,
     dataset = None, path = p\<rparr>"
  using assms by (simp add: pathParts_def first4_def nth_opt_def)

theorem pathParts_fields_shift_witness:
  "split_str CHR ''/'' ''pkg-1.0/kibana/fields.yml'' = [''pkg-1.0'', ''kibana'', ''fields.yml''] \<and>
   ''kibana'' \<noteq> ''dataset'' \<and>
   pathParts ''pkg-1.0/kibana/fields.yml'' =
     \<lparr>pkgkey = Some ''pkg-1.0'', service = Some [], type = Some ''fields'',
      file_part = Some ''fields.yml'', dataset = None, path = ''pkg-1.0/kibana/fields.yml''\<rparr>"
proof -
  have seg: "split_str CHR ''/'' ''pkg-1.0/kibana/fields.yml''
     = [''pkg-1.0'', ''kibana'', ''fields.yml'']" by simp
  have ne: "''kibana'' \<noteq> ''dataset''" by simp
  from pathParts_fields_shift[OF seg ne] seg ne show ?thesis by blast
qed

text \<open>
  C9. The parser is a total function: it returns a record for every string, and the path
  field of the record is the input. For a path of fewer than three segments the record
  is: pkgkey the first segment, service the empty string, type \<^verbatim>\<open>fields\<close>, file and
  dataset undefined.
\<close>

theorem pathParts_short_paths:
  "AssetParts.path (pathParts p) = p \<and>
   (length (split_str CHR ''/'' p) < 3 \<longrightarrow>
    pathParts p =
      \<lparr>pkgkey = Some (hd (split_str CHR ''/'' p)), service = Some [], type = Some ''fields'',
       file_part = None, dataset = None, path = p\<rparr>)"
proof (intro conjI impI)
  show "AssetParts.path (pathParts p) = p"
    by (simp add: pathParts_def split: prod.splits)
next
  assume short: "length (split_str CHR ''/'' p) < 3"
  let ?segs = "split_str CHR ''/'' p"
  have n2: "nth_opt ?segs 2 = None" and n3: "nth_opt ?segs 3 = None"
    using short by (simp_all add: nth_opt_short)
  have n0: "nth_opt ?segs 0 = Some (hd ?segs)"
    using split_str_not_Nil[of "CHR ''/''" p] by (cases ?segs) (auto simp: nth_opt_def)
  have cnt: "count_list p CHR ''/'' < 2"
    using short by (simp add: length_split_str)
  have rep: "replace_str ''dataset/undefined/'' [] p = p"
    by (rule replace_str_absent[where x = "CHR ''/''"]) (use cnt in simp)
  show "pathParts p =
      \<lparr>pkgkey = Some (hd ?segs), service = Some [], type = Some ''fields'',
       file_part = None, dataset = None, path = p\<rparr>"
    by (simp add: pathParts_def first4_def n2 n3 n0 to_str_def rep)
qed

theorem pathParts_short_paths_witness:
  "length (split_str CHR ''/'' []) < 3 \<and>
   pathParts [] =
     \<lparr>pkgkey = Some [], service = Some [], type = Some ''fields'', file_part = None,
      dataset = None, path = []\<rparr> \<and>
   length (split_str CHR ''/'' ''pkg-1.0'') < 3 \<and>
   pathParts ''pkg-1.0'' =
     \<lparr>pkgkey = Some ''pkg-1.0'', service = Some [], type = Some ''fields'', file_part = None,
      dataset = None, path = ''pkg-1.0''\<rparr> \<and>
   length (split_str CHR ''/'' ''pkg-1.0/dataset'') < 3 \<and>
   pathParts ''pkg-1.0/dataset'' =
     \<lparr>pkgkey = Some ''pkg-1.0'', service = Some [], type = Some ''fields'', file_part = None,
      dataset = None, path = ''pkg-1.0/dataset''\<rparr>"
  using pathParts_short_paths[of "[]"] pathParts_short_paths[of "''pkg-1.0''"]
    pathParts_short_paths[of "''pkg-1.0/dataset''"]
  by simp

text \<open>
  C10, as stated, fails: for \<^verbatim>\<open>pkg-1.0/dataset/ds1/fields.yml\<close> the remainder
  \<^verbatim>\<open>pkg-1.0/fields.yml\<close> has two segments, the shift copies its missing third segment,
  and file is undefined, not \<^verbatim>\<open>fields.yml\<close>.
\<close>

theorem pathParts_dataset_fields_file_undefined:
  "pathParts ''pkg-1.0/dataset/ds1/fields.yml'' =
     \<lparr>pkgkey = Some ''pkg-1.0'', service = Some [], type = Some ''fields'', file_part = None,
      dataset = Some ''ds1'', path = ''pkg-1.0/dataset/ds1/fields.yml''\<rparr> \<and>
   file_part (pathParts ''pkg-1.0/dataset/ds1/fields.yml'') \<noteq> Some ''fields.yml''"
  by (simp add: pathParts_def first4_def to_str_def nth_opt_def)

text \<open>
  C10, amended. With the dataset marker present and fewer than four segments left after
  the portion \<^verbatim>\<open>dataset/<name>/\<close> is removed, the fields shift is applied to the
  remainder: service is the empty string, type is \<^verbatim>\<open>fields\<close>, the dataset is the name, and
  file is the third segment of the remainder: the last segment when the remainder has
  three segments, undefined when it has two.
\<close>

theorem pathParts_dataset_fields_shift:
  assumes "CHR ''/'' \<notin> set a" and "CHR ''/'' \<notin> set n" and "CHR ''/'' \<notin> set b"
    and "CHR ''/'' \<notin> set c"
  shows "pathParts (a @ ''/dataset/'' @ n @ ''/'' @ b @ ''/'' @ c) =
      \<lparr>pkgkey = Some a, service = Some [], type = Some ''fields'', file_part = Some c,
       dataset = Some n, path = a @ ''/dataset/'' @ n @ ''/'' @ b @ ''/'' @ c\<rparr> \<and>
    pathParts (a @ ''/dataset/'' @ n @ ''/'' @ c) =
      \<lparr>pkgkey = Some a, service = Some [], type = Some ''fields'', file_part = None,
       dataset = Some n, path = a @ ''/dataset/'' @ n @ ''/'' @ c\<rparr>"
proof
  let ?p = "a @ ''/dataset/'' @ n @ ''/'' @ b @ ''/'' @ c"
  have sp: "split_str CHR ''/'' ?p = a # ''dataset'' # n # [b, c]"
    using assms split_str_append[of "CHR ''/''"] split_str_no_sep[of "CHR ''/''" c] by simp
  have rp: "replace_str (''dataset/'' @ n @ ''/'') [] ?p = a @ ''/'' @ b @ ''/'' @ c"
    using replace_str_dataset[OF assms(1,2), of "b @ ''/'' @ c"] by simp
  have sp2: "split_str CHR ''/'' (a @ ''/'' @ b @ ''/'' @ c) = [a, b, c]"
    using assms by (intro split_str_join3) simp_all
  show "pathParts ?p =
      \<lparr>pkgkey = Some a, service = Some [], type = Some ''fields'', file_part = Some c,
       dataset = Some n, path = ?p\<rparr>"
    unfolding dataset_branch_unfold[OF sp rp sp2] by (simp add: nth_opt_def)
next
  let ?p = "a @ ''/dataset/'' @ n @ ''/'' @ c"
  have sp: "split_str CHR ''/'' ?p = a # ''dataset'' # n # [c]"
    using assms split_str_append[of "CHR ''/''"] split_str_no_sep[of "CHR ''/''" c] by simp
  have rp: "replace_str (''dataset/'' @ n @ ''/'') [] ?p = a @ ''/'' @ c"
    using replace_str_dataset[OF assms(1,2), of c] by simp
  have sp2: "split_str CHR ''/'' (a @ ''/'' @ c) = [a, c]"
    using assms by (intro split_str_join2) simp_all
  show "pathParts ?p =
      \<lparr>pkgkey = Some a, service = Some [], type = Some ''fields'', file_part = None,
       dataset = Some n, path = ?p\<rparr>"
    unfolding dataset_branch_unfold[OF sp rp sp2] by (simp add: nth_opt_def)
qed

theorem pathParts_dataset_fields_shift_witness:
  "CHR ''/'' \<notin> set ''pkg-1.0'' \<and> CHR ''/'' \<notin> set ''ds1'' \<and> CHR ''/'' \<notin> set ''fields'' \<and>
   CHR ''/'' \<notin> set ''fields.yml'' \<and>
   pathParts ''pkg-1.0/dataset/ds1/fields/fields.yml'' =
     \<lparr>pkgkey = Some ''pkg-1.0'', service = Some [], type = Some ''fields'',
      file_part = Some ''fields.yml'', dataset = Some ''ds1'',
      path = ''pkg-1.0/dataset/ds1/fields/fields.yml''\<rparr>"
  using pathParts_dataset_fields_shift[of "''pkg-1.0''" "''ds1''" "''fields''" "''fields.yml''"]
  by simp

subsection \<open>The archive fetcher\<close>

lemma cache_entries_lookup:
  "cache_entries c es key =
     (if [e \<leftarrow> es. path e = key] = [] then c key else buffer (last [e \<leftarrow> es. path e = key]))"
proof (cases "[e \<leftarrow> es. path e = key] = []")
  case True
  then have "key \<notin> path ` set es" by (auto simp: filter_empty_conv)
  then show ?thesis using True by (simp add: cache_entries_other)
next
  case False
  then show ?thesis by (simp add: cache_entries_last)
qed

lemma cached_entries_buffer:
  "e \<in> set (cached_entries flt entries) \<Longrightarrow> \<exists>b. buffer e = Some b"
  by (auto simp: cached_entries_def)

lemma cached_entries_file:
  "e \<in> set (cached_entries flt entries) \<Longrightarrow> truthy_str (file_part (pathParts (path e)))"
  by (auto simp: cached_entries_def)

lemma scenario_fetch:
  "fetchArchiveBuffer scenario_world ''system-1.2.0'' initial_state =
     (Inr (Some scenario_archive),
      \<lparr>cache = (\<lambda>key. None), fetch_log = [(''system-1.2.0'', Inr (Some scenario_archive))]\<rparr>)"
  by (simp add: fetchArchiveBuffer_def fetchInfo_def scenario_world_def scenario_package_def
      to_str_def initial_state_def Let_def)

lemma scenario_getOrFetch:
  "getOrFetchArchiveBuffer scenario_world ''system-1.2.0'' initial_state =
     (Inr scenario_archive,
      \<lparr>cache = (\<lambda>key. None)(''system-1.2.0.tar.gz'' := Some scenario_archive),
       fetch_log = [(''system-1.2.0'', Inr (Some scenario_archive))]\<rparr>)"
proof -
  have "cacheGet (cache initial_state) ''system-1.2.0.tar.gz'' = None"
    by (simp add: cacheGet_def initial_state_def)
  then show ?thesis
    by (simp add: getOrFetchArchiveBuffer_def scenario_fetch cacheSet_def Let_def)
qed

lemma scenario_untar: "untar scenario_world scenario_archive = (scenario_entries, None)"
  by (simp add: scenario_world_def)

lemma scenario_cached_entries:
  "cached_entries accept_all scenario_entries =
     [\<lparr>path = ''system-1.2.0/kibana/dashboard/sample.json'', buffer = Some sample_json\<rparr>]"
  by (simp add: cached_entries_def scenario_entries_def accept_all_def truthy_str_def
      pathParts_def first4_def nth_opt_def)

text \<open>
  C4. Once the archive bytes are there, \<^verbatim>\<open>getArchiveInfo\<close> returns exactly the paths of the
  entries that the filter accepts, whose parsed file is not empty and that carry a buffer,
  in the order of the archive (or the decode error of the walk); it sets the cache at each
  such path to the buffer of its entry, the last one where a path occurs twice, and leaves
  every other key as it was. An entry whose parsed file is empty is in neither the result
  nor the cache, whatever the filter says.
\<close>

theorem getArchiveInfo_paths_and_cache:
  assumes "getOrFetchArchiveBuffer w k s = (Inr archive, s1)"
    and "untar w archive = (entries, failure)"
  shows "fst (getArchiveInfo w k flt s) =
      (case failure of
         None \<Rightarrow> Inr (map path (cached_entries flt entries))
       | Some e \<Rightarrow> Inl e) \<and>
    (\<forall>key. cacheGet (cache (snd (getArchiveInfo w k flt s))) key =
       (if [e \<leftarrow> cached_entries flt entries. path e = key] = [] then cacheGet (cache s1) key
        else buffer (last [e \<leftarrow> cached_entries flt entries. path e = key]))) \<and>
    (\<forall>e\<in>set entries. \<not> truthy_str (file_part (pathParts (path e))) \<longrightarrow>
       path e \<notin> set (map path (cached_entries flt entries)) \<and>
       cacheGet (cache (snd (getArchiveInfo w k flt s))) (path e) = cacheGet (cache s1) (path e))"
proof -
  let ?kept = "cached_entries flt entries"
  have run: "getArchiveInfo w k flt s =
     ((case failure of None \<Rightarrow> Inr (map path ?kept) | Some e \<Rightarrow> Inl e),
      s1\<lparr>cache := cache_entries (cache s1) ?kept\<rparr>)"
    using assms by (rule getArchiveInfo_extracted)
  have look: "\<And>key. cacheGet (cache (snd (getArchiveInfo w k flt s))) key =
       (if [e \<leftarrow> ?kept. path e = key] = [] then cacheGet (cache s1) key
        else buffer (last [e \<leftarrow> ?kept. path e = key]))"
    by (simp add: run cacheGet_def cache_entries_lookup)
  have dirs: "\<And>e. \<not> truthy_str (file_part (pathParts (path e))) \<Longrightarrow>
      [e' \<leftarrow> ?kept. path e' = path e] = []"
    by (auto simp: filter_empty_conv dest: cached_entries_file)
  have out: "\<And>e. \<not> truthy_str (file_part (pathParts (path e))) \<Longrightarrow>
      path e \<notin> set (map path ?kept)"
    using cached_entries_file by fastforce
  have c1: "fst (getArchiveInfo w k flt s) =
      (case failure of None \<Rightarrow> Inr (map path ?kept) | Some e \<Rightarrow> Inl e)"
    by (simp add: run)
  have c3: "\<forall>e\<in>set entries. \<not> truthy_str (file_part (pathParts (path e))) \<longrightarrow>
       path e \<notin> set (map path ?kept) \<and>
       cacheGet (cache (snd (getArchiveInfo w k flt s))) (path e) = cacheGet (cache s1) (path e)"
  proof (intro ballI impI conjI)
    fix e
    assume falsy: "\<not> truthy_str (file_part (pathParts (path e)))"
    then show "path e \<notin> set (map path ?kept)" by (rule out)
    show "cacheGet (cache (snd (getArchiveInfo w k flt s))) (path e) = cacheGet (cache s1) (path e)"
      using look[of "path e"] dirs[OF falsy] by simp
  qed
  from c1 look c3 show ?thesis by blast
qed

theorem getArchiveInfo_paths_and_cache_witness:
  "getOrFetchArchiveBuffer scenario_world ''system-1.2.0'' initial_state =
     (Inr scenario_archive,
      \<lparr>cache = (\<lambda>key. None)(''system-1.2.0.tar.gz'' := Some scenario_archive),
       fetch_log = [(''system-1.2.0'', Inr (Some scenario_archive))]\<rparr>) \<and>
   untar scenario_world scenario_archive = (scenario_entries, None) \<and>
   fst (getArchiveInfo scenario_world ''system-1.2.0'' accept_all initial_state) =
     Inr [''system-1.2.0/kibana/dashboard/sample.json''] \<and>
   cacheGet (cache (snd (getArchiveInfo scenario_world ''system-1.2.0'' accept_all initial_state)))
     ''system-1.2.0/kibana/dashboard/sample.json'' = Some sample_json \<and>
   cacheGet (cache (snd (getArchiveInfo scenario_world ''system-1.2.0'' accept_all initial_state)))
     ''system-1.2.0/kibana/dashboard/'' = None"
proof -
  note inst = getArchiveInfo_paths_and_cache[OF scenario_getOrFetch scenario_untar, of accept_all]
  have first: "fst (getArchiveInfo scenario_world ''system-1.2.0'' accept_all initial_state) =
     Inr [''system-1.2.0/kibana/dashboard/sample.json'']"
    using inst by (simp add: scenario_cached_entries)
  have hit: "cacheGet (cache (snd (getArchiveInfo scenario_world ''system-1.2.0'' accept_all
      initial_state))) ''system-1.2.0/kibana/dashboard/sample.json'' = Some sample_json"
    using inst by (simp add: scenario_cached_entries)
  have dir: "cacheGet (cache (snd (getArchiveInfo scenario_world ''system-1.2.0'' accept_all
      initial_state))) ''system-1.2.0/kibana/dashboard/'' = None"
    using inst by (simp add: scenario_cached_entries cacheGet_def)
  show ?thesis using scenario_getOrFetch scenario_untar first hit dir by blast
qed

text \<open>
  C5. \<^verbatim>\<open>getAsset\<close> on a key that the cache does not hold fails with an error whose message
  names the key, and returns no buffer. After a \<^verbatim>\<open>getArchiveInfo\<close> call, \<^verbatim>\<open>getAsset\<close> on a
  path that the call cached returns the bytes of the archive entry with that path (of the
  last such entry, should the archive hold the path more than once).
\<close>

theorem getAsset_after_getArchiveInfo:
  "(cacheGet (cache s) key = None \<longrightarrow>
      getAsset key s = Inl (Error (''Cannot find asset '' @ key))) \<and>
   (getOrFetchArchiveBuffer w k s = (Inr archive, s1) \<and> untar w archive = (entries, failure) \<and>
    p \<in> set (map path (cached_entries flt entries)) \<longrightarrow>
      (\<exists>b. buffer (last [e \<leftarrow> cached_entries flt entries. path e = p]) = Some b \<and>
           getAsset p (snd (getArchiveInfo w k flt s)) = Inr b)) \<and>
   (getOrFetchArchiveBuffer w k s = (Inr archive, s1) \<and> untar w archive = (entries, failure) \<and>
    e \<in> set (cached_entries flt entries) \<and>
    (\<forall>e'\<in>set (cached_entries flt entries). path e' = path e \<longrightarrow> e' = e) \<longrightarrow>
      (\<exists>b. buffer e = Some b \<and> getAsset (path e) (snd (getArchiveInfo w k flt s)) = Inr b))"
proof (intro conjI impI)
  assume "cacheGet (cache s) key = None"
  then show "getAsset key s = Inl (Error (''Cannot find asset '' @ key))"
    by (simp add: getAsset_def)
next
  let ?kept = "cached_entries flt entries"
  assume h: "getOrFetchArchiveBuffer w k s = (Inr archive, s1) \<and>
    untar w archive = (entries, failure) \<and> p \<in> set (map path ?kept)"
  then have run: "snd (getArchiveInfo w k flt s) = s1\<lparr>cache := cache_entries (cache s1) ?kept\<rparr>"
    using getArchiveInfo_extracted[of w k s archive s1 entries failure flt] by simp
  from h have ne: "[e \<leftarrow> ?kept. path e = p] \<noteq> []"
    by (auto simp: filter_empty_conv)
  then have "last [e \<leftarrow> ?kept. path e = p] \<in> set [e \<leftarrow> ?kept. path e = p]"
    by (rule last_in_set)
  then have "last [e \<leftarrow> ?kept. path e = p] \<in> set ?kept" by simp
  then obtain b where b: "buffer (last [e \<leftarrow> ?kept. path e = p]) = Some b"
    using cached_entries_buffer by blast
  have "cacheGet (cache (snd (getArchiveInfo w k flt s))) p = Some b"
    using ne b by (simp add: run cacheGet_def cache_entries_lookup)
  then have "getAsset p (snd (getArchiveInfo w k flt s)) = Inr b"
    by (simp add: getAsset_def)
  with b show "\<exists>b. buffer (last [e \<leftarrow> ?kept. path e = p]) = Some b \<and>
           getAsset p (snd (getArchiveInfo w k flt s)) = Inr b" by blast
next
  let ?kept = "cached_entries flt entries"
  assume h: "getOrFetchArchiveBuffer w k s = (Inr archive, s1) \<and>
    untar w archive = (entries, failure) \<and> e \<in> set ?kept \<and>
    (\<forall>e'\<in>set ?kept. path e' = path e \<longrightarrow> e' = e)"
  then have run: "snd (getArchiveInfo w k flt s) = s1\<lparr>cache := cache_entries (cache s1) ?kept\<rparr>"
    using getArchiveInfo_extracted[of w k s archive s1 entries failure flt] by simp
  from h have ne: "[e' \<leftarrow> ?kept. path e' = path e] \<noteq> []"
    by (auto simp: filter_empty_conv)
  then have "last [e' \<leftarrow> ?kept. path e' = path e] \<in> set [e' \<leftarrow> ?kept. path e' = path e]"
    by (rule last_in_set)
  then have le: "last [e' \<leftarrow> ?kept. path e' = path e] = e" using h by auto
  from h obtain b where b: "buffer e = Some b" using cached_entries_buffer by blast
  have "cacheGet (cache (snd (getArchiveInfo w k flt s))) (path e) = Some b"
    using ne b le by (simp add: run cacheGet_def cache_entries_lookup)
  then have "getAsset (path e) (snd (getArchiveInfo w k flt s)) = Inr b"
    by (simp add: getAsset_def)
  with b show "\<exists>b. buffer e = Some b \<and>
      getAsset (path e) (snd (getArchiveInfo w k flt s)) = Inr b" by blast
qed

theorem getAsset_after_getArchiveInfo_witness:
  "cacheGet (cache initial_state) ''system-1.2.0/kibana/dashboard/sample.json'' = None \<and>
   getAsset ''system-1.2.0/kibana/dashboard/sample.json'' initial_state =
     Inl (Error ''Cannot find asset system-1.2.0/kibana/dashboard/sample.json'') \<and>
   ''system-1.2.0/kibana/dashboard/sample.json''
     \<in> set (map path (cached_entries accept_all scenario_entries)) \<and>
   getAsset ''system-1.2.0/kibana/dashboard/sample.json''
     (snd (getArchiveInfo scenario_world ''system-1.2.0'' accept_all initial_state)) =
     Inr sample_json"
proof -
  let ?p = "''system-1.2.0/kibana/dashboard/sample.json''"
  have absent: "cacheGet (cache initial_state) ?p = None"
    by (simp add: cacheGet_def initial_state_def)
  have cached: "?p \<in> set (map path (cached_entries accept_all scenario_entries))"
    by (simp add: scenario_cached_entries)
  note inst = getAsset_after_getArchiveInfo[of initial_state ?p scenario_world "''system-1.2.0''"
      scenario_archive _ scenario_entries None ?p accept_all]
  have before: "getAsset ?p initial_state = Inl (Error ''Cannot find asset system-1.2.0/kibana/dashboard/sample.json'')"
    using inst absent by simp
  have after: "getAsset ?p (snd (getArchiveInfo scenario_world ''system-1.2.0'' accept_all
      initial_state)) = Inr sample_json"
    using inst scenario_getOrFetch scenario_untar cached by (simp add: scenario_cached_entries)
  show ?thesis using absent before cached after by blast
qed

lemma initial_cache_empty: "cacheGet (cache initial_state) key = None"
  by (simp add: cacheGet_def initial_state_def)













text \<open>
  C2, as stated, fails: a fetch that resolves with a buffer of zero bytes is not turned
  into an error. The empty buffer is returned by \<^verbatim>\<open>getOrFetchArchiveBuffer\<close> and handed
  to the extraction, and \<^verbatim>\<open>getArchiveInfo\<close> succeeds with no path.
\<close>

theorem empty_archive_reaches_extraction:
  "fst (getOrFetchArchiveBuffer empty_archive_world ''system-1.2.0'' initial_state) = Inr [] \<and>
   fst (getArchiveInfo empty_archive_world ''system-1.2.0'' accept_all initial_state) = Inr []"
proof -
  have f: "fst (fetchArchiveBuffer empty_archive_world ''system-1.2.0'' initial_state)
      = Inr (Some [])"
    by (simp add: fetchArchiveBuffer_def fetchInfo_def empty_archive_world_def
        scenario_world_def to_str_def Let_def)
  have g: "getOrFetchArchiveBuffer empty_archive_world ''system-1.2.0'' initial_state =
      (Inr [], initial_state\<lparr>cache := cacheSet (cache initial_state) (''system-1.2.0'' @ ''.tar.gz'') (Some []),
         fetch_log := fetch_log initial_state @ [(''system-1.2.0'', Inr (Some []))]\<rparr>)"
    using initial_cache_empty f by (rule getOrFetch_miss_buffer)
  have u: "untar empty_archive_world [] = ([], None)"
    by (simp add: empty_archive_world_def)
  show ?thesis
    using getArchiveInfo_extracted[OF g u, of accept_all] g
    by (simp add: cached_entries_def)
qed

text \<open>
  C2, amended. On a cache miss: if the fetch fails, \<^verbatim>\<open>getArchiveInfo\<close> fails with the
  error of the fetch and the cache is untouched; if the fetch resolves without a buffer,
  it fails with the error \<^verbatim>\<open>no archive buffer for ${pkgkey}.tar.gz\<close>, which names the key,
  and the cache is untouched; if the fetch resolves with a buffer, of any length, that
  buffer is stored in the cache under the key and is what the extraction walks.
\<close>

theorem archive_buffer_outcomes:
  assumes "cacheGet (cache s) (k @ ''.tar.gz'') = None"
  shows "(fst (fetchArchiveBuffer w k s) = Inl e \<longrightarrow>
      getArchiveInfo w k flt s = (Inl e, s\<lparr>fetch_log := fetch_log s @ [(k, Inl e)]\<rparr>)) \<and>
    (fst (fetchArchiveBuffer w k s) = Inr None \<longrightarrow>
      getArchiveInfo w k flt s =
        (Inl (Error (''no archive buffer for '' @ k @ ''.tar.gz'')),
         s\<lparr>fetch_log := fetch_log s @ [(k, Inr None)]\<rparr>)) \<and>
    (fst (fetchArchiveBuffer w k s) = Inr (Some b) \<and> untar w b = (entries, failure) \<longrightarrow>
      getOrFetchArchiveBuffer w k s =
        (Inr b, s\<lparr>cache := cacheSet (cache s) (k @ ''.tar.gz'') (Some b),
                  fetch_log := fetch_log s @ [(k, Inr (Some b))]\<rparr>) \<and>
      fst (getArchiveInfo w k flt s) =
        (case failure of
           None \<Rightarrow> Inr (map path (cached_entries flt entries))
         | Some e' \<Rightarrow> Inl e'))"
proof (intro conjI impI)
  assume "fst (fetchArchiveBuffer w k s) = Inl e"
  with assms have "getOrFetchArchiveBuffer w k s = (Inl e, s\<lparr>fetch_log := fetch_log s @ [(k, Inl e)]\<rparr>)"
    by (rule getOrFetch_miss_error)
  then show "getArchiveInfo w k flt s = (Inl e, s\<lparr>fetch_log := fetch_log s @ [(k, Inl e)]\<rparr>)"
    by (rule getArchiveInfo_no_buffer)
next
  assume "fst (fetchArchiveBuffer w k s) = Inr None"
  with assms have "getOrFetchArchiveBuffer w k s =
      (Inl (Error (''no archive buffer for '' @ k @ ''.tar.gz'')),
       s\<lparr>fetch_log := fetch_log s @ [(k, Inr None)]\<rparr>)"
    by (rule getOrFetch_miss_undefined)
  then show "getArchiveInfo w k flt s =
      (Inl (Error (''no archive buffer for '' @ k @ ''.tar.gz'')),
       s\<lparr>fetch_log := fetch_log s @ [(k, Inr None)]\<rparr>)"
    by (rule getArchiveInfo_no_buffer)
next
  assume h: "fst (fetchArchiveBuffer w k s) = Inr (Some b) \<and> untar w b = (entries, failure)"
  with assms show g: "getOrFetchArchiveBuffer w k s =
      (Inr b, s\<lparr>cache := cacheSet (cache s) (k @ ''.tar.gz'') (Some b),
                fetch_log := fetch_log s @ [(k, Inr (Some b))]\<rparr>)"
    using getOrFetch_miss_buffer by blast
  from h have u: "untar w b = (entries, failure)" by simp
  show "fst (getArchiveInfo w k flt s) =
      (case failure of None \<Rightarrow> Inr (map path (cached_entries flt entries)) | Some e' \<Rightarrow> Inl e')"
    using getArchiveInfo_extracted[OF g u, of flt] by simp
qed

theorem archive_buffer_outcomes_witness:
  "cacheGet (cache initial_state) (''system-1.2.0'' @ ''.tar.gz'') = None \<and>
   fst (fetchArchiveBuffer no_buffer_world ''system-1.2.0'' initial_state) = Inr None \<and>
   getArchiveInfo no_buffer_world ''system-1.2.0'' accept_all initial_state =
     (Inl (Error ''no archive buffer for system-1.2.0.tar.gz''),
      initial_state\<lparr>fetch_log := [(''system-1.2.0'', Inr None)]\<rparr>) \<and>
   cacheGet (cache initial_state) (''apache-0.1.0'' @ ''.tar.gz'') = None \<and>
   fst (fetchArchiveBuffer scenario_world ''apache-0.1.0'' initial_state)
     = Inl (Error ''not found'') \<and>
   getArchiveInfo scenario_world ''apache-0.1.0'' accept_all initial_state =
     (Inl (Error ''not found''),
      initial_state\<lparr>fetch_log := [(''apache-0.1.0'', Inl (Error ''not found''))]\<rparr>) \<and>
   fst (fetchArchiveBuffer scenario_world ''system-1.2.0'' initial_state)
     = Inr (Some scenario_archive) \<and>
   untar scenario_world scenario_archive = (scenario_entries, None) \<and>
   fst (getArchiveInfo scenario_world ''system-1.2.0'' accept_all initial_state) =
     Inr [''system-1.2.0/kibana/dashboard/sample.json'']"
proof -
  have none: "fst (fetchArchiveBuffer no_buffer_world ''system-1.2.0'' initial_state) = Inr None"
    by (simp add: fetchArchiveBuffer_def fetchInfo_def no_buffer_world_def scenario_world_def
        to_str_def Let_def)
  have fails: "fst (fetchArchiveBuffer scenario_world ''apache-0.1.0'' initial_state)
      = Inl (Error ''not found'')"
    by (simp add: fetchArchiveBuffer_def fetchInfo_def scenario_world_def to_str_def Let_def)
  have got: "fst (fetchArchiveBuffer scenario_world ''system-1.2.0'' initial_state)
      = Inr (Some scenario_archive)"
    by (simp add: scenario_fetch)
  have log0: "fetch_log initial_state = []" by (simp add: initial_state_def)
  have r1: "getArchiveInfo no_buffer_world ''system-1.2.0'' accept_all initial_state =
     (Inl (Error ''no archive buffer for system-1.2.0.tar.gz''),
      initial_state\<lparr>fetch_log := [(''system-1.2.0'', Inr None)]\<rparr>)"
    using archive_buffer_outcomes[OF initial_cache_empty, of no_buffer_world "''system-1.2.0''"
        _ accept_all] none log0
    by simp
  have r2: "getArchiveInfo scenario_world ''apache-0.1.0'' accept_all initial_state =
     (Inl (Error ''not found''),
      initial_state\<lparr>fetch_log := [(''apache-0.1.0'', Inl (Error ''not found''))]\<rparr>)"
    using archive_buffer_outcomes[OF initial_cache_empty, of scenario_world "''apache-0.1.0''"
        "Error ''not found''" accept_all] fails log0
    by simp
  have r3: "fst (getArchiveInfo scenario_world ''system-1.2.0'' accept_all initial_state) =
     Inr [''system-1.2.0/kibana/dashboard/sample.json'']"
    using archive_buffer_outcomes[OF initial_cache_empty, of scenario_world "''system-1.2.0''"
        _ accept_all scenario_archive scenario_entries None] got scenario_untar
    by (simp add: scenario_cached_entries)
  show ?thesis
    using initial_cache_empty none r1 fails r2 got scenario_untar r3 by blast
qed

subsection \<open>The asset grouper\<close>

lemma service_key_kibana: "(service_key (parse_path p) = ''kibana'') = (service (parse_path p) = Some ''kibana'')"
  using pathParts_service_defined[of "strip_package p"]
  by (auto simp: service_key_def parse_path_def to_str_def)

lemma type_key_eq: "(type_key (parse_path p) = t) = (type (parse_path p) = Some t)"
  using pathParts_type_defined[of "strip_package p"]
  by (auto simp: type_key_def parse_path_def to_str_def)

lemma kibana_filter_eq:
  "[a \<leftarrow> map parse_path paths. service_key a = ''kibana'' \<and> type_key a = t \<and> t \<in> set K] =
   [a \<leftarrow> map parse_path paths. service a = Some ''kibana'' \<and> type a = Some t \<and> t \<in> set K]"
  by (induction paths) (auto simp: service_key_kibana type_key_eq)

lemma kibana_filter_any_eq:
  "[a \<leftarrow> map parse_path paths. service_key a = ''kibana'' \<and> type_key a \<in> set K] =
   [a \<leftarrow> map parse_path paths. service a = Some ''kibana'' \<and> type_key a \<in> set K]"
  by (induction paths) (auto simp: service_key_kibana)

text \<open>
  C3, as stated, fails: a path of a recognized asset type under a service other than
  \<^verbatim>\<open>kibana\<close> is not placed in the result, which keeps the \<^verbatim>\<open>kibana\<close> group only.
\<close>

theorem groupPathsByService_drops_other_services:
  "service (parse_path ''/package/pkg-1.0/elasticsearch/dashboard/a.json'') = Some ''elasticsearch'' \<and>
   type (parse_path ''/package/pkg-1.0/elasticsearch/dashboard/a.json'') = Some ''dashboard'' \<and>
   groupPathsByService [''dashboard''] [''/package/pkg-1.0/elasticsearch/dashboard/a.json'']
     = Returns \<lparr>kibana = None\<rparr>"
  by (simp add: groupPathsByService_def group_path_def push_parts_def get_property_def
      has_property_def objectPrototypeKeys_def strip_package_def parse_path_def pathParts_def
      first4_def nth_opt_def to_str_def Let_def)

text \<open>
  Why the names of \<^verbatim>\<open>Object.prototype\<close> members are set apart below: \<^verbatim>\<open>in\<close> holds for
  them on any plain object, and a lookup in \<^verbatim>\<open>{}\<close> finds the built-in member. A type
  named \<^verbatim>\<open>constructor\<close> makes the call throw, a service named \<^verbatim>\<open>__proto__\<close> makes it write
  to \<^verbatim>\<open>Object.prototype\<close>.
\<close>

lemma inherited_names_leave_the_grouping:
  "groupPathsByService [''dashboard''] [''/package/pkg-1.0/kibana/constructor/a.json'']
     = Throws (TypeError ''map[parts.service][parts.type].push is not a function'') \<and>
   groupPathsByService [''dashboard''] [''/package/pkg-1.0/__proto__/dashboard/a.json'']
     = TouchesBuiltin"
  by (simp add: groupPathsByService_def group_path_def push_parts_def get_property_def
      has_property_def objectPrototypeKeys_def strip_package_def pathParts_def
      first4_def nth_opt_def to_str_def Let_def)

text \<open>
  C3, amended. For a list of paths whose parsed service and type are not names of members
  of \<^verbatim>\<open>Object.prototype\<close>, the grouper returns; it drops every path whose parsed type is
  not a recognized asset type or whose parsed service is not \<^verbatim>\<open>kibana\<close>, and places each
  remaining path exactly once, in the order of the input, in the \<^verbatim>\<open>kibana\<close> group under
  its parsed type. The \<^verbatim>\<open>kibana\<close> group is undefined when no path remains.
\<close>

theorem groupPathsByService_kibana:
  assumes "\<forall>p\<in>set paths. plain_keys p"
  shows "\<exists>r. groupPathsByService assetTypes paths = Returns r \<and>
     (\<forall>t. kibana_assets r t =
        [a \<leftarrow> map parse_path paths.
           service a = Some ''kibana'' \<and> type a = Some t \<and> t \<in> set assetTypes]) \<and>
     (kibana r = None) =
       ([a \<leftarrow> map parse_path paths.
           service a = Some ''kibana'' \<and> type_key a \<in> set assetTypes] = [])"
proof -
  from group_paths_plain[OF assms, of assetTypes Map.empty] obtain m where
    m: "group_paths assetTypes Map.empty paths = Returns m"
    and at: "\<And>s t. assets_at m s t = assets_at Map.empty s t @
       [a \<leftarrow> map parse_path paths. service_key a = s \<and> type_key a = t \<and> t \<in> set assetTypes]"
    and none: "\<And>s. (m s = None) = (Map.empty s = (None :: by_type option) \<and>
       [a \<leftarrow> map parse_path paths. service_key a = s \<and> type_key a \<in> set assetTypes] = [])"
    by blast
  let ?r = "\<lparr>kibana = m ''kibana''\<rparr>"
  have ret: "groupPathsByService assetTypes paths = Returns ?r"
    by (simp add: groupPathsByService_def m)
  have ka: "\<And>t. kibana_assets ?r t = assets_at m ''kibana'' t"
    by (simp add: kibana_assets_def assets_at_def)
  have groups: "\<forall>t. kibana_assets ?r t =
      [a \<leftarrow> map parse_path paths.
         service a = Some ''kibana'' \<and> type a = Some t \<and> t \<in> set assetTypes]"
  proof
    fix t
    have "assets_at Map.empty ''kibana'' t = []" by (simp add: assets_at_def)
    then show "kibana_assets ?r t =
      [a \<leftarrow> map parse_path paths.
         service a = Some ''kibana'' \<and> type a = Some t \<and> t \<in> set assetTypes]"
      using at[of "''kibana''" t] by (simp only: ka kibana_filter_eq append_Nil)
  qed
  have undef: "(kibana ?r = None) =
      ([a \<leftarrow> map parse_path paths.
          service a = Some ''kibana'' \<and> type_key a \<in> set assetTypes] = [])"
    using none[of "''kibana''"] by (simp add: kibana_filter_any_eq)
  show ?thesis
  proof (intro exI conjI)
    show "groupPathsByService assetTypes paths = Returns ?r" by (rule ret)
    show "\<forall>t. kibana_assets ?r t =
      [a \<leftarrow> map parse_path paths.
         service a = Some ''kibana'' \<and> type a = Some t \<and> t \<in> set assetTypes]"
      by (rule groups)
    show "(kibana ?r = None) =
      ([a \<leftarrow> map parse_path paths.
          service a = Some ''kibana'' \<and> type_key a \<in> set assetTypes] = [])"
      by (rule undef)
  qed
qed

theorem groupPathsByService_kibana_witness:
  "plain_keys ''/package/pkg-1.0/kibana/dashboard/a.json'' \<and>
   plain_keys ''/package/pkg-1.0/kibana/lens/b.json'' \<and>
   plain_keys ''/package/pkg-1.0/elasticsearch/dashboard/c.json'' \<and>
   plain_keys ''pkg-1.0/kibana/dashboard/d.json'' \<and>
   (\<exists>r. groupPathsByService [''dashboard'', ''search'']
           [''/package/pkg-1.0/kibana/dashboard/a.json'',
            ''/package/pkg-1.0/kibana/lens/b.json'',
            ''/package/pkg-1.0/elasticsearch/dashboard/c.json'',
            ''pkg-1.0/kibana/dashboard/d.json''] = Returns r \<and>
        kibana_assets r ''dashboard'' =
          [\<lparr>pkgkey = Some ''pkg-1.0'', service = Some ''kibana'', type = Some ''dashboard'',
            file_part = Some ''a.json'', dataset = None,
            path = ''pkg-1.0/kibana/dashboard/a.json''\<rparr>,
           \<lparr>pkgkey = Some ''pkg-1.0'', service = Some ''kibana'', type = Some ''dashboard'',
            file_part = Some ''d.json'', dataset = None,
            path = ''pkg-1.0/kibana/dashboard/d.json''\<rparr>] \<and>
        kibana_assets r ''lens'' = [] \<and>
        kibana_assets r ''search'' = [])"
proof -
  let ?paths = "[''/package/pkg-1.0/kibana/dashboard/a.json'',
              ''/package/pkg-1.0/kibana/lens/b.json'',
              ''/package/pkg-1.0/elasticsearch/dashboard/c.json'',
              ''pkg-1.0/kibana/dashboard/d.json'']"
  have p1: "parse_path ''/package/pkg-1.0/kibana/dashboard/a.json'' =
      \<lparr>pkgkey = Some ''pkg-1.0'', service = Some ''kibana'', type = Some ''dashboard'',
       file_part = Some ''a.json'', dataset = None, path = ''pkg-1.0/kibana/dashboard/a.json''\<rparr>"
    by (simp add: parse_path_def strip_package_def pathParts_def first4_def nth_opt_def)
  have p2: "parse_path ''/package/pkg-1.0/kibana/lens/b.json'' =
      \<lparr>pkgkey = Some ''pkg-1.0'', service = Some ''kibana'', type = Some ''lens'',
       file_part = Some ''b.json'', dataset = None, path = ''pkg-1.0/kibana/lens/b.json''\<rparr>"
    by (simp add: parse_path_def strip_package_def pathParts_def first4_def nth_opt_def)
  have p3: "parse_path ''/package/pkg-1.0/elasticsearch/dashboard/c.json'' =
      \<lparr>pkgkey = Some ''pkg-1.0'', service = Some ''elasticsearch'', type = Some ''dashboard'',
       file_part = Some ''c.json'', dataset = None,
       path = ''pkg-1.0/elasticsearch/dashboard/c.json''\<rparr>"
    by (simp add: parse_path_def strip_package_def pathParts_def first4_def nth_opt_def)
  have p4: "parse_path ''pkg-1.0/kibana/dashboard/d.json'' =
      \<lparr>pkgkey = Some ''pkg-1.0'', service = Some ''kibana'', type = Some ''dashboard'',
       file_part = Some ''d.json'', dataset = None, path = ''pkg-1.0/kibana/dashboard/d.json''\<rparr>"
    by (simp add: parse_path_def strip_package_def pathParts_def first4_def nth_opt_def)
  have k1: "plain_keys ''/package/pkg-1.0/kibana/dashboard/a.json''"
    by (simp add: plain_keys_def p1 service_key_def type_key_def to_str_def
        objectPrototypeKeys_def)
  have k2: "plain_keys ''/package/pkg-1.0/kibana/lens/b.json''"
    by (simp add: plain_keys_def p2 service_key_def type_key_def to_str_def
        objectPrototypeKeys_def)
  have k3: "plain_keys ''/package/pkg-1.0/elasticsearch/dashboard/c.json''"
    by (simp add: plain_keys_def p3 service_key_def type_key_def to_str_def
        objectPrototypeKeys_def)
  have k4: "plain_keys ''pkg-1.0/kibana/dashboard/d.json''"
    by (simp add: plain_keys_def p4 service_key_def type_key_def to_str_def
        objectPrototypeKeys_def)
  have plain: "\<forall>p\<in>set ?paths. plain_keys p"
    using k1 k2 k3 k4 by simp
  from groupPathsByService_kibana[OF plain, of "[''dashboard'', ''search'']"]
  obtain r where r: "groupPathsByService [''dashboard'', ''search''] ?paths = Returns r"
    and g: "\<And>t. kibana_assets r t =
        [a \<leftarrow> map parse_path ?paths.
           service a = Some ''kibana'' \<and> type a = Some t \<and> t \<in> set [''dashboard'', ''search'']]"
    by blast
  have d: "kibana_assets r ''dashboard'' =
          [\<lparr>pkgkey = Some ''pkg-1.0'', service = Some ''kibana'', type = Some ''dashboard'',
            file_part = Some ''a.json'', dataset = None,
            path = ''pkg-1.0/kibana/dashboard/a.json''\<rparr>,
           \<lparr>pkgkey = Some ''pkg-1.0'', service = Some ''kibana'', type = Some ''dashboard'',
            file_part = Some ''d.json'', dataset = None,
            path = ''pkg-1.0/kibana/dashboard/d.json''\<rparr>]"
    by (simp add: g p1 p2 p3 p4)
  have l: "kibana_assets r ''lens'' = []" by (simp add: g p1 p2 p3 p4)
  have s: "kibana_assets r ''search'' = []" by (simp add: g p1 p2 p3 p4)
  from k1 k2 k3 k4 r d l s show ?thesis by blast
qed

end
